theory Spec2Isabelle
  imports Main "HOL-Library.AList"
begin

section \<open>give-ideas-bot: tokenizer, bounded caches, token extraction, dispatcher\<close>

text \<open>
  A shallow embedding of \<^verbatim>\<open>src/main.py\<close>. Python strings are modelled as
  \<^typ>\<open>string\<close>; a \<^typ>\<open>char\<close> stands for one code point below 256. Python's unbounded
  integers are \<^typ>\<open>int\<close>. A \<^verbatim>\<open>dict\<close> is an association list in insertion order with
  \<^const>\<open>map_of\<close> as lookup, \<^const>\<open>AList.update\<close> as item assignment and
  \<^const>\<open>length\<close> as \<^verbatim>\<open>len\<close>; every dictionary of the program starts empty and is
  written by item assignment only, so its keys stay distinct. Exceptions are values of
  the type \<open>error\<close> on the left of a sum.
\<close>

subsection \<open>Python string primitives\<close>

abbreviation SP :: char where "SP \<equiv> CHR '' ''"
abbreviation NL :: char where "NL \<equiv> CHR 0x0A"

text \<open>
  \<^verbatim>\<open>str.isspace\<close> on one character, for the code points below 256: tab, line feed,
  vertical tab, form feed, carriage return, the four separators 0x1C to 0x1F, space,
  next line (0x85) and no-break space (0xA0).
\<close>

definition isspace :: "char \<Rightarrow> bool" where
  "isspace c = (of_char c \<in> {9, 10, 11, 12, 13, 28, 29, 30, 31, 32, 133, 160 :: nat})"

text \<open>\<^verbatim>\<open>s.strip()\<close>: the longest run of whitespace is removed at both ends.\<close>

definition strip :: "string \<Rightarrow> string" where
  "strip s = rev (dropWhile isspace (rev (dropWhile isspace s)))"

text \<open>
  \<^verbatim>\<open>s.split(sep)\<close> with an explicit one-character separator: every occurrence of the
  separator ends a piece, empty pieces are kept, and the empty string gives one empty
  piece. The result is never empty, so \<^const>\<open>hd\<close> and \<^const>\<open>tl\<close> of the
  recursive call are defined.
\<close>

fun str_split :: "char \<Rightarrow> string \<Rightarrow> string list" where
  "str_split sep [] = [[]]"
| "str_split sep (c # cs) =
     (if c = sep then [] # str_split sep cs
      else (c # hd (str_split sep cs)) # tl (str_split sep cs))"

text \<open>\<^verbatim>\<open>sep.join(ws)\<close>.\<close>

fun str_join :: "string \<Rightarrow> string list \<Rightarrow> string" where
  "str_join sep [] = []"
| "str_join sep [w] = w"
| "str_join sep (w # ws) = w @ sep @ str_join sep ws"

subsection \<open>Configuration and global state\<close>

text \<open>
  The entries of \<^verbatim>\<open>CONFIG\<close> that the modelled functions read. \<^verbatim>\<open>CACHE["s2c"]\<close>
  holds \<^verbatim>\<open>json.dumps(result)\<close> and a hit returns \<^verbatim>\<open>json.loads\<close> of it: on lists
  of lists of strings decoding undoes encoding and gives a fresh list, so the cache is
  modelled as holding the grid itself. \<^verbatim>\<open>CACHE["c2s"]\<close> is keyed by
  \<^verbatim>\<open>repr(command)\<close>, which is injective on lists of lists of strings, so the key is
  modelled by the grid itself. The table \<^verbatim>\<open>notes\<close> (field \<open>db_notes\<close>) has
  the primary key \<^verbatim>\<open>name\<close>; its rows are pairs of name and content.
\<close>

type_synonym command = "string list list"

record config =
  prefix :: string
  note_prefix :: string
  cache_sz :: int
  chunk_limit :: int

record state =
  s2c :: "(string \<times> command) list"
  c2s :: "(command \<times> string) list"
  pformat_cache :: "(string \<times> string) list"
  db_notes :: "(string \<times> string) list"

datatype error = IndexError | IntegrityError

subsection \<open>Tokenizer\<close>

text \<open>
  Line 102, \<^verbatim>\<open>"".join(f"{' '.join(line)}\n" for line in command).strip()\<close>, and
  line 114, \<^verbatim>\<open>[line.split(" ") for line in command.strip().split("\n")]\<close>.
\<close>

definition command_to_str_result :: "command \<Rightarrow> string" where
  "command_to_str_result command =
     strip (concat (map (\<lambda>line. str_join [SP] line @ [NL]) command))"

definition str_to_command_result :: "string \<Rightarrow> command" where
  "str_to_command_result command = map (str_split SP) (str_split NL (strip command))"

definition command_to_str :: "config \<Rightarrow> command \<Rightarrow> state \<Rightarrow> string \<times> state" where
  "command_to_str cfg command \<sigma> =
     (if int (length (c2s \<sigma>)) > cache_sz cfg then
        (let result = command_to_str_result command
         in (result, \<sigma>\<lparr>c2s := AList.update command result []\<rparr>))
      else
        (case map_of (c2s \<sigma>) command of
           Some cached \<Rightarrow> (cached, \<sigma>)
         | None \<Rightarrow>
             (let result = command_to_str_result command
              in (result, \<sigma>\<lparr>c2s := AList.update command result (c2s \<sigma>)\<rparr>))))"

definition str_to_command :: "config \<Rightarrow> string \<Rightarrow> state \<Rightarrow> command \<times> state" where
  "str_to_command cfg command \<sigma> =
     (if int (length (s2c \<sigma>)) > cache_sz cfg then
        (let result = str_to_command_result command
         in (result, \<sigma>\<lparr>s2c := AList.update command result []\<rparr>))
      else
        (case map_of (s2c \<sigma>) command of
           Some cached \<Rightarrow> (cached, \<sigma>)
         | None \<Rightarrow>
             (let result = str_to_command_result command
              in (result, \<sigma>\<lparr>s2c := AList.update command result (s2c \<sigma>)\<rparr>))))"

text \<open>
  \<^verbatim>\<open>pformat_cached\<close> takes an object of any type. The object may be one that the
  function itself changes: \<^verbatim>\<open>cmd_dumpcachep\<close> passes \<^verbatim>\<open>PFORMAT_CACHE\<close>. So the
  argument \<open>string\<close> is the object as read in a state (a value that cannot change is a
  constant function), the key \<^verbatim>\<open>_string\<close> (here \<open>string'\<close>) is computed from it
  on entry, and the result is computed from it after \<^verbatim>\<open>PFORMAT_CACHE.clear()\<close>
  when the cache is cleared. The two library functions are parameters: \<open>key\<close> is
  \<^verbatim>\<open>f"{type(string)}.{string}"\<close> and \<open>pformat\<close> is \<^verbatim>\<open>pprint.pformat\<close>.
\<close>

definition pformat_cached ::
  "('a \<Rightarrow> string) \<Rightarrow> ('a \<Rightarrow> string) \<Rightarrow> config \<Rightarrow> (state \<Rightarrow> 'a) \<Rightarrow> state \<Rightarrow>
   string \<times> state" where
  "pformat_cached key pformat cfg string \<sigma> =
     (let string' = key (string \<sigma>)
      in if int (length (pformat_cache \<sigma>)) > cache_sz cfg then
           (let \<sigma>1 = \<sigma>\<lparr>pformat_cache := []\<rparr>;
                result = pformat (string \<sigma>1)
            in (result, \<sigma>1\<lparr>pformat_cache := AList.update string' result (pformat_cache \<sigma>1)\<rparr>))
         else
           (case map_of (pformat_cache \<sigma>) string' of
              Some cached \<Rightarrow> (cached, \<sigma>)
            | None \<Rightarrow>
                (let result = pformat (string \<sigma>)
                 in (result,
                     \<sigma>\<lparr>pformat_cache := AList.update string' result (pformat_cache \<sigma>)\<rparr>))))"

subsection \<open>Leading-token extraction\<close>

text \<open>
  The loop of \<^verbatim>\<open>get_nth_word\<close> over \<^verbatim>\<open>enumerate(command)\<close>: \<open>found\<close> is the
  counter, \<open>widx\<close> the index and the last argument the lines still to visit. The list is
  changed only on the path that returns, so the test \<^verbatim>\<open>command and all(command)\<close>
  reads the list as passed. \<^verbatim>\<open>word[0]\<close> raises on an empty line. The result pairs the
  returned value with the list after the call.
\<close>

fun get_nth_word_loop ::
  "command \<Rightarrow> int \<Rightarrow> int \<Rightarrow> nat \<Rightarrow> command \<Rightarrow> error + (string option \<times> command)" where
  "get_nth_word_loop command n found widx [] = Inr (None, command)"
| "get_nth_word_loop command n found widx (word # rest) =
     (let found' = (if command \<noteq> [] \<and> list_all (\<lambda>line. line \<noteq> []) command
                    then found + 1 else found)
      in if found' - 1 = n then
           (case word of
              [] \<Rightarrow> Inl IndexError
            | result # _ \<Rightarrow> Inr (Some result, command[widx := tl (command ! widx)]))
         else get_nth_word_loop command n found' (Suc widx) rest)"

definition get_nth_word :: "command \<Rightarrow> int \<Rightarrow> error + (string option \<times> command)" where
  "get_nth_word command n = get_nth_word_loop command n 0 0 command"

subsection \<open>Message chunker\<close>

text \<open>\<^verbatim>\<open>str(i)\<close> for an integer: its decimal digits, with a minus sign when negative.\<close>

fun str_nat :: "nat \<Rightarrow> string" where
  "str_nat n =
     (if n < 10 then [char_of (48 + n)] else str_nat (n div 10) @ [char_of (48 + n mod 10)])"

definition str_int :: "int \<Rightarrow> string" where
  "str_int i = (if i < 0 then CHR ''-'' # str_nat (nat (- i)) else str_nat (nat i))"

text \<open>
  The generator \<^verbatim>\<open>message[i : i + 2000] for i in range(0, len(message), 2000)\<close>:
  the range holds the multiples of 2000 below the length.
\<close>

definition chunks :: "string \<Rightarrow> string list" where
  "chunks message =
     map (\<lambda>k. take 2000 (drop (2000 * k) message)) [0 ..< (length message + 1999) div 2000]"

definition chunk_warning :: "config \<Rightarrow> string" where
  "chunk_warning cfg =
     ''***Message chunk count exceeded ('' @ str_int (chunk_limit cfg) @ ''), message too long!***''"

text \<open>
  The loop of \<^verbatim>\<open>_send_message\<close>. The result lists, in order, the arguments of the
  calls of \<^verbatim>\<open>self.bot.cchannel.send\<close>.
\<close>

fun send_message_loop :: "config \<Rightarrow> nat \<Rightarrow> string list \<Rightarrow> string list" where
  "send_message_loop cfg chunk_idx [] = []"
| "send_message_loop cfg chunk_idx (chunk # rest) =
     (if int chunk_idx > chunk_limit cfg then [chunk_warning cfg]
      else (chunk @ [NL]) # send_message_loop cfg (Suc chunk_idx) rest)"

definition send_message :: "config \<Rightarrow> string \<Rightarrow> string list" where
  "send_message cfg message = send_message_loop cfg 0 (chunks message)"

subsection \<open>Note store\<close>

text \<open>
  \<^verbatim>\<open>DB_SESSION.add(Note(name=..., content=...))\<close> followed by
  \<^verbatim>\<open>DB_SESSION.commit()\<close> on the table whose column \<^verbatim>\<open>name\<close> is declared
  \<^verbatim>\<open>primary_key=True\<close>: the insert raises \<^verbatim>\<open>IntegrityError\<close> when a row of that
  name exists, and appends the row otherwise.
\<close>

definition db_add_commit ::
  "string \<Rightarrow> string \<Rightarrow> (string \<times> string) list \<Rightarrow> error + (string \<times> string) list" where
  "db_add_commit name content rows =
     (if name \<in> fst ` set rows then Inl IntegrityError else Inr (rows @ [(name, content)]))"

text \<open>
  What a handler or the dispatcher passes to \<^verbatim>\<open>_send_message\<close>, one constructor for
  each text of the source:
  \<^item> \<open>Help what\<close>: \<^verbatim>\<open>_send_help(what, message)\<close>;
  \<^item> \<open>Already_Exists n\<close>: \<^verbatim>\<open>Note {n!r} already exists\<close>;
  \<^item> \<open>Saved n\<close>: \<^verbatim>\<open>Note {n!r} saved\<close>;
  \<^item> \<open>Note_Content c\<close>: the lines of the note's content, each after \<^verbatim>\<open>"> "\<close>;
  \<^item> \<open>Note_Not_Found n\<close>: \<^verbatim>\<open>Note {n!r} not found\<close>;
  \<^item> \<open>Permission_Denied\<close>: \<^verbatim>\<open>You have no permission to use this bot\<close>;
  \<^item> \<open>No_Command\<close>: \<^verbatim>\<open>No command or note name specified\<close>;
  \<^item> \<open>Unknown_Command c\<close>: \<^verbatim>\<open>Unknown command: {c!r}\<close>;
  \<^item> \<open>Invalid_Tokens s f\<close>: \<^verbatim>\<open>Your command expression did not return any valid tokens\<close>
    with the command string \<open>s\<close> and the formatted command \<open>f\<close>.
\<close>

datatype response =
    Help string
  | Already_Exists string
  | Saved string
  | Note_Content string
  | Note_Not_Found string
  | Permission_Denied
  | No_Command
  | Unknown_Command string
  | Invalid_Tokens string string

text \<open>
  \<^verbatim>\<open>cmd_set\<close>. The content is computed before the insert; on \<^verbatim>\<open>IntegrityError\<close>
  the session is rolled back, which leaves the table as it was.
\<close>

definition cmd_set :: "config \<Rightarrow> command \<Rightarrow> state \<Rightarrow> error + (response \<times> state)" where
  "cmd_set cfg command \<sigma> =
     (case get_nth_word command 0 of
        Inl e \<Rightarrow> Inl e
      | Inr (None, command') \<Rightarrow> Inr (Help ''set'', \<sigma>)
      | Inr (Some note_name, command') \<Rightarrow>
          (let (content, \<sigma>') = command_to_str cfg command' \<sigma>
           in case db_add_commit note_name content (db_notes \<sigma>') of
                Inl e \<Rightarrow> Inr (Already_Exists note_name, \<sigma>')
              | Inr rows \<Rightarrow> Inr (Saved note_name, \<sigma>'\<lparr>db_notes := rows\<rparr>)))"

subsection \<open>Dispatcher\<close>

definition startswith :: "string \<Rightarrow> string \<Rightarrow> bool" where
  "startswith s p = (take (length p) s = p)"

definition removeprefix :: "string \<Rightarrow> string \<Rightarrow> string" where
  "removeprefix s p = (if startswith s p then drop (length p) s else s)"

text \<open>
  A role of the guild. \<^verbatim>\<open>discord.Role\<close> values compare by id, and within one guild
  the id determines the role, so roles are compared as values.
\<close>

record role =
  role_id :: nat
  role_name :: string

record message =
  author_bot :: bool
  author_id :: nat
  author_roles :: "role list"
  content :: string

text \<open>
  Lines 613 to 616: \<^verbatim>\<open>any(role in message.author.roles and not role.name[0] == "@"
  for role in _bot_roles)\<close>, evaluated left to right and stopping at the first true
  element; \<^verbatim>\<open>role.name[0]\<close> raises on an empty name.
\<close>

fun has_permission :: "role list \<Rightarrow> role list \<Rightarrow> error + bool" where
  "has_permission roles [] = Inr False"
| "has_permission roles (role # rest) =
     (if role \<in> set roles then
        (case role_name role of
           [] \<Rightarrow> Inl IndexError
         | c # _ \<Rightarrow> if c \<noteq> CHR ''@'' then Inr True else has_permission roles rest)
      else has_permission roles rest)"

text \<open>The methods \<^verbatim>\<open>cmd_*\<close> of \<^verbatim>\<open>BotCommandsParser\<close>, found by \<^verbatim>\<open>getattr\<close>.\<close>

definition handlers :: "string list" where
  "handlers =
     [''say'', ''set'', ''del'', ''cya'', ''list'', ''help'', ''sql'', ''config'', ''sh'',
      ''botfetch'', ''sayd'', ''dumpcache'', ''dumpcachep'', ''status'', ''warm'', ''banana'']"

text \<open>
  Each path through \<^verbatim>\<open>on_message\<close> ends in one of three ways: it returns without
  output (\<open>Return\<close>), it sends one response (\<open>Send\<close>), or it calls a handler
  \<^verbatim>\<open>cmd_<name>(message, command)\<close> (\<open>Call name command\<close>).
\<close>

datatype action = Return | Send response | Call string command

text \<open>
  \<^verbatim>\<open>on_message\<close>. The argument \<open>bot_roles\<close> is the value of
  \<^verbatim>\<open>self.cchannel.guild.get_member(self.user.id).roles\<close>, \<open>None\<close> when that raises
  \<^verbatim>\<open>AttributeError\<close>; \<open>key\<close> and \<open>pformat\<close> are the parameters of
  \<^const>\<open>pformat_cached\<close>.
\<close>

definition on_message ::
  "(command \<Rightarrow> string) \<Rightarrow> (command \<Rightarrow> string) \<Rightarrow> config \<Rightarrow> role list option \<Rightarrow>
   message \<Rightarrow> state \<Rightarrow> error + (action \<times> state)" where
  "on_message key pformat cfg bot_roles message \<sigma> =
     (if author_bot message \<or>
         \<not> (startswith (content message) (prefix cfg) \<or>
            startswith (content message) (note_prefix cfg))
      then Inr (Return, \<sigma>)
      else
        (let command_str = removeprefix (content message) (prefix cfg);
             (command, \<sigma>1) = str_to_command cfg command_str \<sigma>
         in if startswith command_str (note_prefix cfg) then
              (case command of
                 [] \<Rightarrow> Inl IndexError
               | [] # _ \<Rightarrow> Inl IndexError
               | (word # _) # _ \<Rightarrow>
                   (let note_name = removeprefix word (note_prefix cfg)
                    in case map_of (db_notes \<sigma>1) note_name of
                         Some note \<Rightarrow> Inr (Send (Note_Content note), \<sigma>1)
                       | None \<Rightarrow>
                           if strip note_name = [] then Inr (Call ''list'' command, \<sigma>1)
                           else Inr (Send (Note_Not_Found note_name), \<sigma>1)))
            else
              (case bot_roles of
                 None \<Rightarrow> Inr (Return, \<sigma>1)
               | Some roles \<Rightarrow>
                   (case has_permission (author_roles message) roles of
                      Inl e \<Rightarrow> Inl e
                    | Inr False \<Rightarrow> Inr (Send Permission_Denied, \<sigma>1)
                    | Inr True \<Rightarrow>
                        if command = [] then Inr (Send No_Command, \<sigma>1)
                        else
                          (case get_nth_word command 0 of
                             Inl e \<Rightarrow> Inl e
                           | Inr (Some cmd, command') \<Rightarrow>
                               if cmd \<in> set handlers then Inr (Call cmd command', \<sigma>1)
                               else Inr (Send (Unknown_Command cmd), \<sigma>1)
                           | Inr (None, command') \<Rightarrow>
                               (let (formatted, \<sigma>2) =
                                      pformat_cached key pformat cfg (\<lambda>_. command') \<sigma>1
                                in Inr (Send (Invalid_Tokens command_str formatted), \<sigma>2)))))))"

subsection \<open>Initial values and the cache invariant\<close>

text \<open>
  The literal \<^verbatim>\<open>CONFIG\<close> of the source, and the state at start-up: the three
  dictionaries are empty and the table has just been created.
\<close>

definition default_config :: config where
  "default_config = \<lparr>prefix = [CHR 0x27], note_prefix = [CHR 0x22], cache_sz = 500, chunk_limit = 4\<rparr>"

definition initial_state :: state where
  "initial_state = \<lparr>s2c = [], c2s = [], pformat_cache = [], db_notes = []\<rparr>"

text \<open>
  The two tokenizer caches are written by \<^const>\<open>str_to_command\<close> and
  \<^const>\<open>command_to_str\<close> only, so each entry holds what the function computes for
  its key.
\<close>

definition cache_ok :: "state \<Rightarrow> bool" where
  "cache_ok \<sigma> \<longleftrightarrow>
     list_all (\<lambda>(k, v). v = str_to_command_result k) (s2c \<sigma>) \<and>
     list_all (\<lambda>(k, v). v = command_to_str_result k) (c2s \<sigma>)"

text \<open>The two compositions \<^verbatim>\<open>str_to_command(command_to_str(c))\<close> and
  \<^verbatim>\<open>command_to_str(str_to_command(s))\<close>, the state threaded through both calls.\<close>

definition round_trip_command :: "config \<Rightarrow> command \<Rightarrow> state \<Rightarrow> command" where
  "round_trip_command cfg c \<sigma> =
     (let (text, \<sigma>1) = command_to_str cfg c \<sigma> in fst (str_to_command cfg text \<sigma>1))"

definition round_trip_str :: "config \<Rightarrow> string \<Rightarrow> state \<Rightarrow> string" where
  "round_trip_str cfg s \<sigma> =
     (let (c, \<sigma>1) = str_to_command cfg s \<sigma> in fst (command_to_str cfg c \<sigma>1))"

text \<open>A sequence of calls, one for each element of a list in order; only the state
  is kept.\<close>

definition str_to_command_all :: "config \<Rightarrow> string list \<Rightarrow> state \<Rightarrow> state" where
  "str_to_command_all cfg ks \<sigma> = fold (\<lambda>k \<sigma>. snd (str_to_command cfg k \<sigma>)) ks \<sigma>"

definition command_to_str_all :: "config \<Rightarrow> command list \<Rightarrow> state \<Rightarrow> state" where
  "command_to_str_all cfg cs \<sigma> = fold (\<lambda>c \<sigma>. snd (command_to_str cfg c \<sigma>)) cs \<sigma>"

definition pformat_cached_all ::
  "('a \<Rightarrow> string) \<Rightarrow> ('a \<Rightarrow> string) \<Rightarrow> config \<Rightarrow> (state \<Rightarrow> 'a) list \<Rightarrow> state \<Rightarrow> state" where
  "pformat_cached_all key pformat cfg xs \<sigma> =
     fold (\<lambda>x \<sigma>. snd (pformat_cached key pformat cfg x \<sigma>)) xs \<sigma>"

text \<open>The keys of these calls of \<^const>\<open>pformat_cached\<close>, each computed from its
  object in the state that the call finds.\<close>

fun pformat_cached_keys ::
  "('a \<Rightarrow> string) \<Rightarrow> ('a \<Rightarrow> string) \<Rightarrow> config \<Rightarrow> (state \<Rightarrow> 'a) list \<Rightarrow> state \<Rightarrow> string list" where
  "pformat_cached_keys key pformat cfg [] \<sigma> = []"
| "pformat_cached_keys key pformat cfg (x # xs) \<sigma> =
     key (x \<sigma>) # pformat_cached_keys key pformat cfg xs (snd (pformat_cached key pformat cfg x \<sigma>))"

section \<open>Verification\<close>

subsection \<open>Leading-token extraction\<close>

lemma get_nth_word_loop_all:
  assumes "list_all (\<lambda>line. line \<noteq> []) command"
    and "rest = drop widx command" and "int widx \<le> n" and "n < int (length command)"
  shows "get_nth_word_loop command n (int widx) widx rest =
           Inr (Some (hd (command ! nat n)), command[nat n := tl (command ! nat n)])"
  using assms
proof (induction rest arbitrary: widx)
  case Nil
  then show ?case by simp
next
  case (Cons word rest)
  from Cons.prems have w: "widx < length command" by simp
  have cne: "command \<noteq> []" using w by auto
  from Cons.prems(2) w have word: "word = command ! widx" and rest: "rest = drop (Suc widx) command"
    by (simp_all add: Cons_nth_drop_Suc[symmetric])
  have wne: "word \<noteq> []"
    using Cons.prems(1) w word by (simp add: list_all_length)
  show ?case
  proof (cases "int widx = n")
    case True
    then have "nat n = widx" by simp
    with True wne cne Cons.prems(1) word show ?thesis
      by (auto split: list.splits)
  next
    case False
    with Cons.prems have le: "int (Suc widx) \<le> n" by simp
    have "get_nth_word_loop command n (int (Suc widx)) (Suc widx) rest =
           Inr (Some (hd (command ! nat n)), command[nat n := tl (command ! nat n)])"
      using Cons.IH[OF Cons.prems(1) rest le Cons.prems(4)] .
    with False cne Cons.prems(1) show ?thesis by (simp add: add.commute)
  qed
qed

lemma get_nth_word_loop_not_all:
  assumes "\<not> (command \<noteq> [] \<and> list_all (\<lambda>line. line \<noteq> []) command)" and "0 \<le> n"
  shows "get_nth_word_loop command n 0 widx rest = Inr (None, command)"
  using assms by (induction rest arbitrary: widx) auto

lemma get_nth_word_loop_range:
  assumes "found + int (length rest) \<le> n"
  shows "get_nth_word_loop command n found widx rest = Inr (None, command)"
  using assms
proof (induction rest arbitrary: found widx)
  case Nil
  then show ?case by simp
next
  case (Cons word rest)
  then show ?case by (auto simp: Let_def)
qed

text \<open>
  C2. On a grid whose lines are all non-empty and for an index \<open>n\<close> with
  \<open>0 \<le> n < len(command)\<close>, \<^verbatim>\<open>get_nth_word(command, n)\<close> returns the first token of
  line \<open>n\<close> and leaves the grid with that token removed from line \<open>n\<close>. The witness is
  the grid \<^verbatim>\<open>[["set", "foo", "bar"]]\<close>: the first call returns \<^verbatim>\<open>"set"\<close> and leaves
  \<^verbatim>\<open>[["foo", "bar"]]\<close>, the second call returns \<^verbatim>\<open>"foo"\<close>.
\<close>

theorem get_nth_word_extracts:
  assumes "list_all (\<lambda>line. line \<noteq> []) command" and "0 \<le> n" and "n < int (length command)"
  shows "get_nth_word command n =
           Inr (Some (hd (command ! nat n)), command[nat n := tl (command ! nat n)])"
  unfolding get_nth_word_def
  using get_nth_word_loop_all[of command command 0 n] assms by simp

theorem get_nth_word_extracts_witness:
  "get_nth_word [[''set'', ''foo'', ''bar'']] 0 = Inr (Some ''set'', [[''foo'', ''bar'']]) \<and>
   get_nth_word [[''foo'', ''bar'']] 0 = Inr (Some ''foo'', [[''bar'']])"
  using get_nth_word_extracts[of "[[''set'', ''foo'', ''bar'']]" 0]
    get_nth_word_extracts[of "[[''foo'', ''bar'']]" 0]
  by simp

text \<open>
  C7. For \<open>n \<ge> 0\<close>, when \<open>n\<close> is at least the number of lines or the grid has an
  empty line, \<^verbatim>\<open>get_nth_word(command, n)\<close> returns \<^verbatim>\<open>None\<close> and leaves the grid as
  it was.
\<close>

theorem get_nth_word_absent:
  assumes "0 \<le> n" and "int (length command) \<le> n \<or> [] \<in> set command"
  shows "get_nth_word command n = Inr (None, command)"
proof (cases "[] \<in> set command")
  case True
  then have "\<not> list_all (\<lambda>line. line \<noteq> []) command" by (auto simp: list_all_iff)
  then show ?thesis
    unfolding get_nth_word_def using get_nth_word_loop_not_all[of command n] assms(1) by simp
next
  case False
  with assms(2) have "0 + int (length command) \<le> n" by simp
  then show ?thesis
    unfolding get_nth_word_def by (rule get_nth_word_loop_range)
qed

theorem get_nth_word_absent_witness:
  "get_nth_word [[''a'']] 1 = Inr (None, [[''a'']]) \<and>
   get_nth_word [[''a'', ''b''], []] 0 = Inr (None, [[''a'', ''b''], []])"
  using get_nth_word_absent[of 1 "[[''a'']]"] get_nth_word_absent[of 0 "[[''a'', ''b''], []]"]
  by simp

subsection \<open>Splitting, joining and stripping\<close>

lemma str_split_nonempty: "str_split sep s \<noteq> []"
  by (induction s) auto

lemma str_join_Cons_Cons: "str_join sep ((c # w) # ws) = c # str_join sep (w # ws)"
  by (cases ws) auto

lemma str_join_Nil_Cons: "ws \<noteq> [] \<Longrightarrow> str_join sep ([] # ws) = sep @ str_join sep ws"
  by (cases ws) auto

lemma str_join_split: "str_join [sep] (str_split sep s) = s"
proof (induction s)
  case Nil
  then show ?case by simp
next
  case (Cons c cs)
  have ne: "str_split sep cs \<noteq> []" by (rule str_split_nonempty)
  show ?case
  proof (cases "c = sep")
    case True
    then show ?thesis using Cons ne by (simp add: str_join_Nil_Cons)
  next
    case False
    have "str_join [sep] ((c # hd (str_split sep cs)) # tl (str_split sep cs)) =
            c # str_join [sep] (hd (str_split sep cs) # tl (str_split sep cs))"
      by (rule str_join_Cons_Cons)
    with False ne Cons show ?thesis by simp
  qed
qed

lemma str_split_no_sep: "sep \<notin> set w \<Longrightarrow> str_split sep w = [w]"
  by (induction w) auto

lemma str_split_append_sep:
  "sep \<notin> set w \<Longrightarrow> str_split sep (w @ sep # rest) = w # str_split sep rest"
  by (induction w) auto

lemma str_split_join:
  assumes "ws \<noteq> []" and "\<forall>w\<in>set ws. sep \<notin> set w"
  shows "str_split sep (str_join [sep] ws) = ws"
  using assms
proof (induction ws)
  case Nil
  then show ?case by simp
next
  case (Cons w ws)
  show ?case
  proof (cases ws)
    case Nil
    with Cons.prems show ?thesis by (simp add: str_split_no_sep)
  next
    case (Cons v vs)
    with Cons.prems Cons.IH show ?thesis
      using str_split_append_sep[of sep w "str_join [sep] ws"] by simp
  qed
qed

lemma set_str_join: "set (str_join sep ws) \<subseteq> set sep \<union> \<Union> (set ` set ws)"
  by (induction sep ws rule: str_join.induct) auto

lemma str_join_eq_Nil: "ws \<noteq> [] \<Longrightarrow> hd ws \<noteq> [] \<Longrightarrow> str_join sep ws \<noteq> []"
  by (induction sep ws rule: str_join.induct) auto

lemma hd_str_join: "ws \<noteq> [] \<Longrightarrow> hd ws \<noteq> [] \<Longrightarrow> hd (str_join sep ws) = hd (hd ws)"
  by (induction sep ws rule: str_join.induct) auto

lemma last_str_join: "ws \<noteq> [] \<Longrightarrow> last ws \<noteq> [] \<Longrightarrow> last (str_join sep ws) = last (last ws)"
proof (induction sep ws rule: str_join.induct)
  case (3 sep w v vs)
  from 3 have l: "last (str_join sep (v # vs)) = last (last (v # vs))" by simp
  have ne: "str_join sep (v # vs) \<noteq> []"
  proof
    assume e: "str_join sep (v # vs) = []"
    from 3 have "last (v # vs) \<noteq> []" by simp
    moreover have "set (last (v # vs)) \<subseteq> set (str_join sep (v # vs))"
      by (induction sep "v # vs" arbitrary: v vs rule: str_join.induct) auto
    ultimately show False using e by auto
  qed
  with l show ?case by simp
qed simp_all

lemma concat_lines: "ls \<noteq> [] \<Longrightarrow> concat (map (\<lambda>l. l @ [c]) ls) = str_join [c] ls @ [c]"
  by (induction ls rule: str_join.induct[of _ "[c]"]) auto

lemma last_dropWhile: "dropWhile P xs \<noteq> [] \<Longrightarrow> last (dropWhile P xs) = last xs"
  by (induction xs) (auto split: if_splits)

lemma strip_ends:
  assumes "strip s \<noteq> []"
  shows "\<not> isspace (hd (strip s))" and "\<not> isspace (last (strip s))"
proof -
  let ?u = "dropWhile isspace s"
  let ?v = "dropWhile isspace (rev ?u)"
  from assms have v: "?v \<noteq> []" by (simp add: strip_def)
  then have u: "?u \<noteq> []" by (metis dropWhile.simps(1) rev.simps(1))
  have "last (strip s) = hd ?v" using v by (simp add: strip_def last_rev)
  then show "\<not> isspace (last (strip s))" using v hd_dropWhile[of isspace "rev ?u"] by simp
  have "hd (strip s) = last ?v" using v by (simp add: strip_def hd_rev)
  also have "\<dots> = last (rev ?u)" using v by (rule last_dropWhile)
  also have "\<dots> = hd ?u" using u by (simp add: last_rev)
  finally show "\<not> isspace (hd (strip s))" using u hd_dropWhile[of isspace s] by simp
qed

lemma strip_id:
  assumes "s \<noteq> []" and "\<not> isspace (hd s)" and "\<not> isspace (last s)"
  shows "strip s = s"
proof -
  from assms have "dropWhile isspace s = s" by (cases s) auto
  moreover from assms have "dropWhile isspace (rev s) = rev s" 
    by (cases "rev s") (auto simp: hd_rev[symmetric])
  ultimately show ?thesis by (simp add: strip_def)
qed

lemma isspace_NL: "isspace NL"
  by (simp add: isspace_def)

lemma strip_append_NL:
  assumes "s \<noteq> []" and "\<not> isspace (hd s)" and "\<not> isspace (last s)"
  shows "strip (s @ [NL]) = s"
proof -
  from assms have "dropWhile isspace (s @ [NL]) = s @ [NL]" by (cases s) auto
  moreover from assms have "dropWhile isspace (rev s) = rev s" 
    by (cases "rev s") (auto simp: hd_rev[symmetric])
  ultimately show ?thesis by (simp add: strip_def isspace_NL)
qed

lemma strip_strip_NL: "strip (strip s @ [NL]) = strip s"
proof (cases "strip s = []")
  case True
  then have "strip (strip s @ [NL]) = strip [NL]" by simp
  also have "\<dots> = []" by (simp add: strip_def isspace_NL)
  finally show ?thesis using True by simp
next
  case False
  then show ?thesis using strip_ends[of s] by (intro strip_append_NL) auto
qed

lemma command_to_str_result_inverse:
  "command_to_str_result (str_to_command_result s) = strip s"
proof -
  let ?ls = "str_split NL (strip s)"
  have "map (\<lambda>line. str_join [SP] line @ [NL]) (map (str_split SP) ?ls) = map (\<lambda>l. l @ [NL]) ?ls"
    by (simp add: str_join_split)
  then have "command_to_str_result (str_to_command_result s) = strip (concat (map (\<lambda>l. l @ [NL]) ?ls))"
    by (simp add: command_to_str_result_def str_to_command_result_def o_def str_join_split)
  also have "\<dots> = strip (str_join [NL] ?ls @ [NL])"
    by (simp add: concat_lines str_split_nonempty)
  also have "\<dots> = strip s"
    by (simp add: str_join_split strip_strip_NL)
  finally show ?thesis .
qed

subsection \<open>The tokenizer caches\<close>

lemma list_all_map_of:
  "list_all (\<lambda>(k, v). v = f k) al \<Longrightarrow> map_of al k = Some v \<Longrightarrow> v = f k"
  by (auto dest: map_of_SomeD simp: list_all_iff)

lemma list_all_update:
  "list_all (\<lambda>(k, v). v = f k) al \<Longrightarrow> list_all (\<lambda>(k, v). v = f k) (AList.update k (f k) al)"
  by (induction al) auto

lemma cache_ok_initial: "cache_ok initial_state"
  by (simp add: cache_ok_def initial_state_def)

lemma str_to_command_cache_ok:
  assumes "cache_ok \<sigma>"
  shows "fst (str_to_command cfg s \<sigma>) = str_to_command_result s"
    and "cache_ok (snd (str_to_command cfg s \<sigma>))"
  using assms list_all_map_of[of str_to_command_result "s2c \<sigma>" s]
    list_all_update[of str_to_command_result "s2c \<sigma>" s]
  by (auto simp: str_to_command_def cache_ok_def Let_def split: option.splits)

lemma command_to_str_cache_ok:
  assumes "cache_ok \<sigma>"
  shows "fst (command_to_str cfg c \<sigma>) = command_to_str_result c"
    and "cache_ok (snd (command_to_str cfg c \<sigma>))"
  using assms list_all_map_of[of command_to_str_result "c2s \<sigma>" c]
    list_all_update[of command_to_str_result "c2s \<sigma>" c]
  by (auto simp: command_to_str_def cache_ok_def Let_def split: option.splits)

text \<open>
  The invariant holds at start-up and every modelled operation keeps it, so it holds in
  every state the program reaches; the theorems on the tokenizer assume it.
\<close>

lemma pformat_cached_cache_ok:
  "cache_ok \<sigma> \<Longrightarrow> cache_ok (snd (pformat_cached key pformat cfg x \<sigma>))"
  by (simp add: pformat_cached_def cache_ok_def Let_def split: option.splits)

lemma cmd_set_cache_ok:
  assumes "cache_ok \<sigma>" and "cmd_set cfg command \<sigma> = Inr (r, \<sigma>')"
  shows "cache_ok \<sigma>'"
proof -
  have "cache_ok (snd (command_to_str cfg c \<sigma>))" for c
    using assms(1) by (rule command_to_str_cache_ok)
  then have "cache_ok (snd (command_to_str cfg c \<sigma>)\<lparr>db_notes := rows\<rparr>)" for c rows
    by (simp add: cache_ok_def)
  with assms \<open>\<And>c. cache_ok (snd (command_to_str cfg c \<sigma>))\<close> show ?thesis
    by (auto simp: cmd_set_def split_beta split: sum.splits option.splits)
qed

lemma on_message_cache_ok:
  assumes "cache_ok \<sigma>" and "on_message key pformat cfg bot_roles message \<sigma> = Inr (a, \<sigma>')"
  shows "cache_ok \<sigma>'"
proof -
  have 1: "cache_ok (snd (str_to_command cfg s \<sigma>))" for s
    using assms(1) by (rule str_to_command_cache_ok)
  then have 2: "cache_ok (snd (pformat_cached key pformat cfg x (snd (str_to_command cfg s \<sigma>))))"
    for s and x :: "state \<Rightarrow> command" by (rule pformat_cached_cache_ok)
  from assms 1 2 show ?thesis
    by (auto simp: on_message_def Let_def split_beta
        split: if_splits list.splits option.splits sum.splits bool.splits)
qed

subsection \<open>Tokenizer round trips\<close>

text \<open>
  C8, as amended. For every string \<open>s\<close>, in every state that satisfies the cache
  invariant, \<^verbatim>\<open>command_to_str(str_to_command(s))\<close> is \<^verbatim>\<open>s.strip()\<close>: whitespace
  at the two ends of \<open>s\<close> is removed and everything between is kept as it is, runs of
  spaces and of newlines included. The counterexample to the claim as stated: \<^verbatim>\<open>"a  b"\<close> comes
  back with its two spaces and \<^verbatim>\<open>"a\n\nb"\<close> with its two newlines.
\<close>

theorem round_trip_str_strips:
  assumes "cache_ok \<sigma>"
  shows "round_trip_str cfg s \<sigma> = strip s"
  using str_to_command_cache_ok[OF assms, of cfg s]
    command_to_str_cache_ok(1)[of "snd (str_to_command cfg s \<sigma>)" cfg "fst (str_to_command cfg s \<sigma>)"]
  by (simp add: round_trip_str_def split_beta command_to_str_result_inverse)

theorem round_trip_str_strips_witness:
  "cache_ok initial_state \<and> round_trip_str default_config ''  a  b '' initial_state = ''a  b''"
  using round_trip_str_strips[of initial_state default_config "''  a  b ''"]
  by (simp add: cache_ok_initial strip_def isspace_def)

theorem round_trip_str_counterexample:
  "round_trip_str default_config ''a  b'' initial_state = ''a  b'' \<and>
   round_trip_str default_config [CHR ''a'', NL, NL, CHR ''b''] initial_state =
     [CHR ''a'', NL, NL, CHR ''b'']"
  by (simp add: round_trip_str_def str_to_command_def command_to_str_def default_config_def
      initial_state_def str_to_command_result_def command_to_str_result_def strip_def isspace_def
      Let_def)

lemma str_to_command_result_inverse:
  assumes "c \<noteq> []"
    and "\<forall>line\<in>set c. line \<noteq> [] \<and> (\<forall>w\<in>set line. w \<noteq> [] \<and> SP \<notin> set w \<and> NL \<notin> set w)"
    and "\<not> isspace (hd (hd (hd c)))" and "\<not> isspace (last (last (last c)))"
  shows "str_to_command_result (command_to_str_result c) = c"
proof -
  let ?ls = "map (str_join [SP]) c"
  let ?body = "str_join [NL] ?ls"
  have ls: "?ls \<noteq> []" using assms(1) by simp
  have hdc: "hd c \<in> set c" and lastc: "last c \<in> set c" using assms(1) by simp_all
  have hd_ls: "hd ?ls = str_join [SP] (hd c)" using assms(1) by (simp add: hd_map)
  have last_ls: "last ?ls = str_join [SP] (last c)" using assms(1) by (simp add: last_map)
  have hd_ne: "hd c \<noteq> []" "hd (hd c) \<noteq> []" using assms(2) hdc by auto
  have last_ne: "last c \<noteq> []" "hd (last c) \<noteq> []" "last (last c) \<noteq> []"
    using assms(2) lastc by auto
  have hd_ls_ne: "hd ?ls \<noteq> []" unfolding hd_ls using hd_ne by (rule str_join_eq_Nil)
  have last_ls_ne: "last ?ls \<noteq> []" unfolding last_ls using last_ne(1,2) by (rule str_join_eq_Nil)
  have body_ne: "?body \<noteq> []" using ls hd_ls_ne by (rule str_join_eq_Nil)
  have "hd ?body = hd (hd ?ls)" using ls hd_ls_ne by (rule hd_str_join)
  also have "\<dots> = hd (hd (hd c))" unfolding hd_ls using hd_ne by (rule hd_str_join)
  finally have hd_body: "\<not> isspace (hd ?body)" using assms(3) by simp
  have "last ?body = last (last ?ls)" using ls last_ls_ne by (rule last_str_join)
  also have "\<dots> = last (last (last c))" unfolding last_ls using last_ne(1,3) by (rule last_str_join)
  finally have last_body: "\<not> isspace (last ?body)" using assms(4) by simp
  have "concat (map (\<lambda>line. str_join [SP] line @ [NL]) c) = concat (map (\<lambda>l. l @ [NL]) ?ls)"
    by (simp add: o_def)
  also have "\<dots> = ?body @ [NL]" using ls by (rule concat_lines)
  finally have res: "command_to_str_result c = ?body"
    using strip_append_NL[OF body_ne hd_body last_body] by (simp add: command_to_str_result_def)
  have no_nl: "\<forall>l\<in>set ?ls. NL \<notin> set l"
  proof
    fix l assume "l \<in> set ?ls"
    then obtain line where line: "line \<in> set c" and l: "l = str_join [SP] line" by auto
    from line assms(2) have "NL \<notin> \<Union> (set ` set line)" by auto
    with set_str_join[of "[SP]" line] show "NL \<notin> set l" unfolding l by auto
  qed
  have lines: "str_split NL ?body = ?ls" using ls no_nl by (rule str_split_join)
  have "map (str_split SP) ?ls = c"
  proof -
    have "\<forall>line\<in>set c. str_split SP (str_join [SP] line) = line"
      using assms(2) by (auto intro: str_split_join)
    then have "map (\<lambda>line. str_split SP (str_join [SP] line)) c = map (\<lambda>line. line) c"
      by (intro map_cong) auto
    then show ?thesis by (simp add: o_def)
  qed
  with lines show ?thesis
    using strip_id[OF body_ne hd_body last_body] res
    by (simp add: str_to_command_result_def)
qed

text \<open>
  C1, as amended. For every non-empty grid with no empty line and no empty token, where
  no token contains a space or a newline, the first token of the first line does not
  begin with a whitespace character and the last token of the last line does not end
  with one, \<^verbatim>\<open>str_to_command(command_to_str(c)) == c\<close>, in every state that
  satisfies the cache invariant. The counterexample to the claim as stated: the empty
  grid comes back as \<^verbatim>\<open>[[""]]\<close>, and so does the grid whose only token is a tab.
\<close>

theorem round_trip_command_id:
  assumes "cache_ok \<sigma>" and "c \<noteq> []"
    and "\<forall>line\<in>set c. line \<noteq> [] \<and> (\<forall>w\<in>set line. w \<noteq> [] \<and> SP \<notin> set w \<and> NL \<notin> set w)"
    and "\<not> isspace (hd (hd (hd c)))" and "\<not> isspace (last (last (last c)))"
  shows "round_trip_command cfg c \<sigma> = c"
  using command_to_str_cache_ok[OF assms(1), of cfg c]
    str_to_command_cache_ok(1)[of "snd (command_to_str cfg c \<sigma>)" cfg "fst (command_to_str cfg c \<sigma>)"]
    str_to_command_result_inverse[OF assms(2-5)]
  by (simp add: round_trip_command_def split_beta)

theorem round_trip_command_id_witness:
  "cache_ok initial_state \<and>
   round_trip_command default_config [[''set'', ''foo''], [''bar'']] initial_state =
     [[''set'', ''foo''], [''bar'']]"
  using round_trip_command_id[of initial_state "[[''set'', ''foo''], [''bar'']]" default_config]
  by (simp add: cache_ok_initial isspace_def)

theorem round_trip_command_counterexample:
  "round_trip_command default_config [] initial_state = [['''']] \<and>
   round_trip_command default_config [] initial_state \<noteq> [] \<and>
   round_trip_command default_config [[[CHR 0x09]]] initial_state = [['''']] \<and>
   round_trip_command default_config [[[CHR 0x09]]] initial_state \<noteq> [[[CHR 0x09]]]"
  by (simp add: round_trip_command_def str_to_command_def command_to_str_def default_config_def
      initial_state_def str_to_command_result_def command_to_str_result_def strip_def isspace_def
      Let_def)

subsection \<open>Shape of a tokenized command\<close>

lemma get_nth_word_first:
  assumes "command \<noteq> []" and "list_all (\<lambda>line. line \<noteq> []) command"
  shows "get_nth_word command 0 = Inr (Some (hd (hd command)), tl (hd command) # tl command)"
proof -
  from assms obtain word rest where c: "command = word # rest" by (cases command) auto
  with assms(2) obtain w ws where w: "word = w # ws" by (cases word) auto
  show ?thesis using assms(2) unfolding get_nth_word_def c w by simp
qed

lemma str_to_command_result_shape:
  "str_to_command_result s \<noteq> []" "list_all (\<lambda>line. line \<noteq> []) (str_to_command_result s)"
  by (simp_all add: str_to_command_result_def str_split_nonempty list_all_iff)

text \<open>
  C10. For every string \<open>s\<close>, the empty one included, and in every state that
  satisfies the cache invariant, \<^verbatim>\<open>str_to_command(s)\<close> has at least one line and
  every line has at least one token; so \<^verbatim>\<open>get_nth_word(str_to_command(s), 0)\<close>
  returns a token, and \<^verbatim>\<open>on_message\<close> never ends in the response for a command
  without valid tokens.
\<close>

theorem str_to_command_shape:
  assumes "cache_ok \<sigma>"
  shows "(let command = fst (str_to_command cfg s \<sigma>)
          in command \<noteq> [] \<and> list_all (\<lambda>line. line \<noteq> []) command \<and>
             get_nth_word command 0 =
               Inr (Some (hd (hd command)), tl (hd command) # tl command)) \<and>
         on_message key pformat cfg bot_roles message \<sigma> \<noteq> Inr (Send (Invalid_Tokens x y), \<sigma>')"
proof -
  let ?cs = "removeprefix (content message) (prefix cfg)"
  have a: "fst (str_to_command cfg s \<sigma>) = str_to_command_result s" for s
    using assms by (rule str_to_command_cache_ok)
  have g: "get_nth_word (str_to_command_result s) 0 =
      Inr (Some (hd (hd (str_to_command_result s))),
           tl (hd (str_to_command_result s)) # tl (str_to_command_result s))" for s
    using str_to_command_result_shape[of s] by (rule get_nth_word_first)
  obtain c \<sigma>1 where st: "str_to_command cfg ?cs \<sigma> = (c, \<sigma>1)" by (cases "str_to_command cfg ?cs \<sigma>")
  with a[of ?cs] have c: "c = str_to_command_result ?cs" by simp
  have "on_message key pformat cfg bot_roles message \<sigma> \<noteq> Inr (Send (Invalid_Tokens x y), \<sigma>')"
    using g[of ?cs] st c
    by (auto simp: on_message_def Let_def split: list.splits option.splits sum.splits bool.splits)
  then show ?thesis
    using a[of s] g[of s] str_to_command_result_shape[of s] by (simp add: Let_def)
qed

theorem str_to_command_shape_witness:
  "cache_ok initial_state \<and>
   fst (str_to_command default_config '''' initial_state) = [['''']] \<and>
   get_nth_word (fst (str_to_command default_config '''' initial_state)) 0 = Inr (Some '''', [[]])"
proof -
  have h: "cache_ok initial_state" by (rule cache_ok_initial)
  have v: "fst (str_to_command default_config '''' initial_state) = [['''']]"
    by (simp add: str_to_command_def initial_state_def default_config_def
        str_to_command_result_def strip_def Let_def)
  from str_to_command_shape[OF h, of default_config "''''"] v h show ?thesis
    by (simp add: Let_def)
qed

subsection \<open>Bounded caches\<close>

lemma update_fresh_keys:
  "k \<notin> fst ` set al \<Longrightarrow> map fst (AList.update k v al) = map fst al @ [k]"
  by (induction al) auto

lemma map_of_fresh: "k \<notin> fst ` set al \<Longrightarrow> map_of al k = None"
  by (simp add: map_of_eq_None_iff)

lemma str_to_command_wipe:
  assumes "cache_sz cfg < int (length (s2c \<sigma>))"
  shows "str_to_command cfg k \<sigma> =
           (str_to_command_result k, \<sigma>\<lparr>s2c := [(k, str_to_command_result k)]\<rparr>)"
  using assms by (simp add: str_to_command_def Let_def)

lemma command_to_str_wipe:
  assumes "cache_sz cfg < int (length (c2s \<sigma>))"
  shows "command_to_str cfg c \<sigma> =
           (command_to_str_result c, \<sigma>\<lparr>c2s := [(c, command_to_str_result c)]\<rparr>)"
  using assms by (simp add: command_to_str_def Let_def)

lemma pformat_cached_wipe:
  assumes "cache_sz cfg < int (length (pformat_cache \<sigma>))"
  shows "pformat_cached key pformat cfg x \<sigma> =
           (pformat (x (\<sigma>\<lparr>pformat_cache := []\<rparr>)),
            \<sigma>\<lparr>pformat_cache := [(key (x \<sigma>), pformat (x (\<sigma>\<lparr>pformat_cache := []\<rparr>)))]\<rparr>)"
  using assms by (simp add: pformat_cached_def Let_def)

lemma str_to_command_all_keys:
  assumes "distinct ks" and "int (length ks) \<le> cache_sz cfg + 1" and "s2c \<sigma> = []"
  shows "map fst (s2c (str_to_command_all cfg ks \<sigma>)) = ks"
  using assms
proof (induction ks rule: rev_induct)
  case Nil
  then show ?case by (simp add: str_to_command_all_def)
next
  case (snoc k ks)
  let ?\<sigma> = "str_to_command_all cfg ks \<sigma>"
  from snoc have keys: "map fst (s2c ?\<sigma>) = ks" by simp
  then have len: "length (s2c ?\<sigma>) = length ks" by (metis length_map)
  from keys have "fst ` set (s2c ?\<sigma>) = set ks" by (metis set_map)
  with snoc.prems(1) have fresh: "k \<notin> fst ` set (s2c ?\<sigma>)" by simp
  have "str_to_command_all cfg (ks @ [k]) \<sigma> = snd (str_to_command cfg k ?\<sigma>)"
    by (simp add: str_to_command_all_def)
  also have "s2c \<dots> = AList.update k (str_to_command_result k) (s2c ?\<sigma>)"
    using snoc.prems(2) len map_of_fresh[OF fresh] by (simp add: str_to_command_def Let_def)
  finally show ?case using update_fresh_keys[OF fresh] keys by simp
qed

lemma command_to_str_all_keys:
  assumes "distinct cs" and "int (length cs) \<le> cache_sz cfg + 1" and "c2s \<sigma> = []"
  shows "map fst (c2s (command_to_str_all cfg cs \<sigma>)) = cs"
  using assms
proof (induction cs rule: rev_induct)
  case Nil
  then show ?case by (simp add: command_to_str_all_def)
next
  case (snoc c cs)
  let ?\<sigma> = "command_to_str_all cfg cs \<sigma>"
  from snoc have keys: "map fst (c2s ?\<sigma>) = cs" by simp
  then have len: "length (c2s ?\<sigma>) = length cs" by (metis length_map)
  from keys have "fst ` set (c2s ?\<sigma>) = set cs" by (metis set_map)
  with snoc.prems(1) have fresh: "c \<notin> fst ` set (c2s ?\<sigma>)" by simp
  have "command_to_str_all cfg (cs @ [c]) \<sigma> = snd (command_to_str cfg c ?\<sigma>)"
    by (simp add: command_to_str_all_def)
  also have "c2s \<dots> = AList.update c (command_to_str_result c) (c2s ?\<sigma>)"
    using snoc.prems(2) len map_of_fresh[OF fresh] by (simp add: command_to_str_def Let_def)
  finally show ?case using update_fresh_keys[OF fresh] keys by simp
qed

lemma pformat_cached_all_keys_from:
  assumes "distinct (map fst (pformat_cache \<sigma>) @ pformat_cached_keys key pformat cfg xs \<sigma>)"
    and "int (length (pformat_cache \<sigma>)) + int (length xs) \<le> cache_sz cfg + 1"
  shows "map fst (pformat_cache (pformat_cached_all key pformat cfg xs \<sigma>)) =
           map fst (pformat_cache \<sigma>) @ pformat_cached_keys key pformat cfg xs \<sigma>"
  using assms
proof (induction xs arbitrary: \<sigma>)
  case Nil
  then show ?case by (simp add: pformat_cached_all_def)
next
  case (Cons x xs)
  let ?\<sigma> = "snd (pformat_cached key pformat cfg x \<sigma>)"
  from Cons.prems(1) have fresh: "key (x \<sigma>) \<notin> fst ` set (pformat_cache \<sigma>)" by auto
  have step: "pformat_cache ?\<sigma> =
      AList.update (key (x \<sigma>)) (pformat (x \<sigma>)) (pformat_cache \<sigma>)"
    using Cons.prems(2) map_of_fresh[OF fresh] by (simp add: pformat_cached_def Let_def)
  then have keys: "map fst (pformat_cache ?\<sigma>) = map fst (pformat_cache \<sigma>) @ [key (x \<sigma>)]"
    using update_fresh_keys[OF fresh] by simp
  then have len: "length (pformat_cache ?\<sigma>) = Suc (length (pformat_cache \<sigma>))"
    by (metis length_append_singleton length_map)
  have d: "distinct (map fst (pformat_cache ?\<sigma>) @ pformat_cached_keys key pformat cfg xs ?\<sigma>)"
    using Cons.prems(1) unfolding keys by simp
  have l: "int (length (pformat_cache ?\<sigma>)) + int (length xs) \<le> cache_sz cfg + 1"
    using Cons.prems(2) unfolding len by simp
  have "pformat_cached_all key pformat cfg (x # xs) \<sigma> = pformat_cached_all key pformat cfg xs ?\<sigma>"
    by (simp add: pformat_cached_all_def)
  with Cons.IH[OF d l] keys show ?case by simp
qed

lemma pformat_cached_all_keys:
  assumes "distinct (pformat_cached_keys key pformat cfg xs \<sigma>)"
    and "int (length xs) \<le> cache_sz cfg + 1" and "pformat_cache \<sigma> = []"
  shows "map fst (pformat_cache (pformat_cached_all key pformat cfg xs \<sigma>)) =
           pformat_cached_keys key pformat cfg xs \<sigma>"
  using pformat_cached_all_keys_from[of \<sigma> key pformat cfg xs] assms by simp

lemma length_pformat_cached_keys: "length (pformat_cached_keys key pformat cfg xs \<sigma>) = length xs"
  by (induction xs arbitrary: \<sigma>) simp_all

text \<open>
  C3, as amended. For each of the three caches: when a call finds more entries than
  \<^verbatim>\<open>cache-sz\<close>, the cache is cleared before the key is looked up, a key that was
  present included, and the call leaves the one entry it computes. So after
  \<^verbatim>\<open>cache-sz + 1\<close> distinct keys have been put into an empty cache, one more call
  leaves at most one entry. The counterexample to the claim as stated, which does not
  ask for an empty cache: with \<^verbatim>\<open>cache-sz = 1\<close> and one entry in the cache, two
  further distinct keys and one more call leave two entries, since the cache is cleared
  by the second key and not by the last call.
\<close>

theorem bounded_cache_full_wipe:
  "(cache_sz cfg < int (length (s2c \<sigma>)) \<longrightarrow>
      str_to_command cfg k \<sigma> =
        (str_to_command_result k, \<sigma>\<lparr>s2c := [(k, str_to_command_result k)]\<rparr>)) \<and>
   (cache_sz cfg < int (length (c2s \<sigma>)) \<longrightarrow>
      command_to_str cfg c \<sigma> =
        (command_to_str_result c, \<sigma>\<lparr>c2s := [(c, command_to_str_result c)]\<rparr>)) \<and>
   (cache_sz cfg < int (length (pformat_cache \<sigma>)) \<longrightarrow>
      pformat_cached key pformat cfg x \<sigma> =
        (pformat (x (\<sigma>\<lparr>pformat_cache := []\<rparr>)),
         \<sigma>\<lparr>pformat_cache := [(key (x \<sigma>), pformat (x (\<sigma>\<lparr>pformat_cache := []\<rparr>)))]\<rparr>)) \<and>
   (distinct ks \<and> int (length ks) = cache_sz cfg + 1 \<and> s2c \<sigma> = [] \<longrightarrow>
      length (s2c (snd (str_to_command cfg k (str_to_command_all cfg ks \<sigma>)))) \<le> 1) \<and>
   (distinct cs \<and> int (length cs) = cache_sz cfg + 1 \<and> c2s \<sigma> = [] \<longrightarrow>
      length (c2s (snd (command_to_str cfg c (command_to_str_all cfg cs \<sigma>)))) \<le> 1) \<and>
   (distinct (pformat_cached_keys key pformat cfg xs \<sigma>) \<and>
    int (length xs) = cache_sz cfg + 1 \<and> pformat_cache \<sigma> = [] \<longrightarrow>
      length (pformat_cache
        (snd (pformat_cached key pformat cfg x (pformat_cached_all key pformat cfg xs \<sigma>)))) \<le> 1)"
proof -
  have a: "length (s2c (snd (str_to_command cfg k (str_to_command_all cfg ks \<sigma>)))) \<le> 1"
    if "distinct ks" "int (length ks) = cache_sz cfg + 1" "s2c \<sigma> = []"
  proof -
    from that have "map fst (s2c (str_to_command_all cfg ks \<sigma>)) = ks"
      by (intro str_to_command_all_keys) simp_all
    then have "length (s2c (str_to_command_all cfg ks \<sigma>)) = length ks" by (metis length_map)
    with that(2) have "cache_sz cfg < int (length (s2c (str_to_command_all cfg ks \<sigma>)))" by simp
    then show ?thesis by (simp add: str_to_command_wipe)
  qed
  have b: "length (c2s (snd (command_to_str cfg c (command_to_str_all cfg cs \<sigma>)))) \<le> 1"
    if "distinct cs" "int (length cs) = cache_sz cfg + 1" "c2s \<sigma> = []"
  proof -
    from that have "map fst (c2s (command_to_str_all cfg cs \<sigma>)) = cs"
      by (intro command_to_str_all_keys) simp_all
    then have "length (c2s (command_to_str_all cfg cs \<sigma>)) = length cs" by (metis length_map)
    with that(2) have "cache_sz cfg < int (length (c2s (command_to_str_all cfg cs \<sigma>)))" by simp
    then show ?thesis by (simp add: command_to_str_wipe)
  qed
  have c: "length (pformat_cache
        (snd (pformat_cached key pformat cfg x (pformat_cached_all key pformat cfg xs \<sigma>)))) \<le> 1"
    if "distinct (pformat_cached_keys key pformat cfg xs \<sigma>)"
      "int (length xs) = cache_sz cfg + 1" "pformat_cache \<sigma> = []"
  proof -
    from that have "map fst (pformat_cache (pformat_cached_all key pformat cfg xs \<sigma>)) =
        pformat_cached_keys key pformat cfg xs \<sigma>"
      by (intro pformat_cached_all_keys) simp_all
    then have "length (pformat_cache (pformat_cached_all key pformat cfg xs \<sigma>)) = length xs"
      by (metis length_map length_pformat_cached_keys)
    with that(2) have
      "cache_sz cfg < int (length (pformat_cache (pformat_cached_all key pformat cfg xs \<sigma>)))"
      by simp
    then show ?thesis by (simp add: pformat_cached_wipe)
  qed
  show ?thesis
    using a b c str_to_command_wipe[of cfg \<sigma> k] command_to_str_wipe[of cfg \<sigma> c]
      pformat_cached_wipe[of cfg \<sigma> key pformat x]
    by blast
qed

theorem bounded_cache_full_wipe_witness:
  "cache_sz (default_config\<lparr>cache_sz := 1\<rparr>) < int (length [(''a'', [[''a'']]), (''b'', [[''b'']])]) \<and>
   str_to_command (default_config\<lparr>cache_sz := 1\<rparr>) ''a''
     \<lparr>s2c = [(''a'', [[''a'']]), (''b'', [[''b'']])], c2s = [([[''a'']], ''a''), ([[''b'']], ''b'')],
      pformat_cache = [(''a'', ''x''), (''b'', ''y'')], db_notes = []\<rparr> =
     ([[''a'']],
      \<lparr>s2c = [(''a'', [[''a'']])], c2s = [([[''a'']], ''a''), ([[''b'']], ''b'')],
       pformat_cache = [(''a'', ''x''), (''b'', ''y'')], db_notes = []\<rparr>) \<and>
   command_to_str (default_config\<lparr>cache_sz := 1\<rparr>) [[''a'']]
     \<lparr>s2c = [(''a'', [[''a'']]), (''b'', [[''b'']])], c2s = [([[''a'']], ''a''), ([[''b'']], ''b'')],
      pformat_cache = [(''a'', ''x''), (''b'', ''y'')], db_notes = []\<rparr> =
     (''a'',
      \<lparr>s2c = [(''a'', [[''a'']]), (''b'', [[''b'']])], c2s = [([[''a'']], ''a'')],
       pformat_cache = [(''a'', ''x''), (''b'', ''y'')], db_notes = []\<rparr>) \<and>
   pformat_cached (concat \<circ> map fst) (concat \<circ> map snd) (default_config\<lparr>cache_sz := 1\<rparr>)
     pformat_cache
     \<lparr>s2c = [(''a'', [[''a'']]), (''b'', [[''b'']])], c2s = [([[''a'']], ''a''), ([[''b'']], ''b'')],
      pformat_cache = [(''a'', ''x''), (''b'', ''y'')], db_notes = []\<rparr> =
     ('''',
      \<lparr>s2c = [(''a'', [[''a'']]), (''b'', [[''b'']])], c2s = [([[''a'']], ''a''), ([[''b'']], ''b'')],
       pformat_cache = [(''ab'', '''')], db_notes = []\<rparr>) \<and>
   distinct [''a'', ''b''] \<and> int (length [''a'', ''b'']) = cache_sz (default_config\<lparr>cache_sz := 1\<rparr>) + 1 \<and>
   length (s2c (snd (str_to_command (default_config\<lparr>cache_sz := 1\<rparr>) ''c''
     (str_to_command_all (default_config\<lparr>cache_sz := 1\<rparr>) [''a'', ''b''] initial_state)))) \<le> 1 \<and>
   length (c2s (snd (command_to_str (default_config\<lparr>cache_sz := 1\<rparr>) [[''c'']]
     (command_to_str_all (default_config\<lparr>cache_sz := 1\<rparr>) [[[''a'']], [[''b'']]] initial_state)))) \<le> 1 \<and>
   distinct (pformat_cached_keys id id (default_config\<lparr>cache_sz := 1\<rparr>)
     [\<lambda>_. ''a'', \<lambda>_. ''b''] initial_state) \<and>
   length (pformat_cache (snd (pformat_cached id id (default_config\<lparr>cache_sz := 1\<rparr>) (\<lambda>_. ''c'')
     (pformat_cached_all id id (default_config\<lparr>cache_sz := 1\<rparr>) [\<lambda>_. ''a'', \<lambda>_. ''b'']
        initial_state)))) \<le> 1"
proof -
  let ?cfg = "default_config\<lparr>cache_sz := 1\<rparr>"
  let ?\<sigma> = "\<lparr>s2c = [(''a'', [[''a'']]), (''b'', [[''b'']])],
          c2s = [([[''a'']], ''a''), ([[''b'']], ''b'')],
          pformat_cache = [(''a'', ''x''), (''b'', ''y'')], db_notes = []\<rparr>"
  have full: "cache_sz ?cfg < int (length (s2c ?\<sigma>))" "cache_sz ?cfg < int (length (c2s ?\<sigma>))"
    "cache_sz ?cfg < int (length (pformat_cache ?\<sigma>))"
    by simp_all
  have d: "distinct (pformat_cached_keys id id ?cfg [\<lambda>_. ''a'', \<lambda>_. ''b''] initial_state)"
    by simp
  have e: "pformat_cache initial_state = []" "s2c initial_state = []" "c2s initial_state = []"
    by (simp_all add: initial_state_def)
  note w1 = bounded_cache_full_wipe[where cfg = ?cfg and \<sigma> = ?\<sigma> and k = "''a''"
      and c = "[[''a'']]" and key = "concat \<circ> map fst" and pformat = "concat \<circ> map snd"
      and x = pformat_cache and ks = "[]" and cs = "[]" and xs = "[]"]
  note w2 = bounded_cache_full_wipe[where cfg = ?cfg and \<sigma> = initial_state and k = "''c''"
      and c = "[[''c'']]" and key = id and pformat = id and x = "\<lambda>_. ''c''"
      and ks = "[''a'', ''b'']" and cs = "[[[''a'']], [[''b'']]]"
      and xs = "[\<lambda>_. ''a'', \<lambda>_. ''b'']"]
  from w1 full have 1: "str_to_command ?cfg ''a'' ?\<sigma> =
      (str_to_command_result ''a'', ?\<sigma>\<lparr>s2c := [(''a'', str_to_command_result ''a'')]\<rparr>)"
    and 2: "command_to_str ?cfg [[''a'']] ?\<sigma> =
      (command_to_str_result [[''a'']], ?\<sigma>\<lparr>c2s := [([[''a'']], command_to_str_result [[''a'']])]\<rparr>)"
    and 3: "pformat_cached (concat \<circ> map fst) (concat \<circ> map snd) ?cfg pformat_cache ?\<sigma> =
      ((concat \<circ> map snd) (pformat_cache (?\<sigma>\<lparr>pformat_cache := []\<rparr>)),
       ?\<sigma>\<lparr>pformat_cache := [((concat \<circ> map fst) (pformat_cache ?\<sigma>),
          (concat \<circ> map snd) (pformat_cache (?\<sigma>\<lparr>pformat_cache := []\<rparr>)))]\<rparr>)"
    by blast+
  from w2 d e have 4:
    "length (s2c (snd (str_to_command ?cfg ''c'' (str_to_command_all ?cfg [''a'', ''b''] initial_state)))) \<le> 1"
    and 5: "length (c2s (snd (command_to_str ?cfg [[''c'']]
       (command_to_str_all ?cfg [[[''a'']], [[''b'']]] initial_state)))) \<le> 1"
    and 6: "length (pformat_cache (snd (pformat_cached id id ?cfg (\<lambda>_. ''c'')
     (pformat_cached_all id id ?cfg [\<lambda>_. ''a'', \<lambda>_. ''b''] initial_state)))) \<le> 1"
    by simp_all
  have r: "str_to_command_result ''a'' = [[''a'']]" "command_to_str_result [[''a'']] = ''a''"
    by (simp_all add: str_to_command_result_def command_to_str_result_def strip_def isspace_def)
  show ?thesis
    unfolding 1 2 3 r using 4 5 6 d by simp
qed

theorem bounded_cache_full_wipe_counterexample:
  "s2c (snd (str_to_command (default_config\<lparr>cache_sz := 1\<rparr>) ''c''
     (str_to_command_all (default_config\<lparr>cache_sz := 1\<rparr>) [''a'', ''b'']
        (initial_state\<lparr>s2c := [(''z'', [[''z'']])]\<rparr>)))) =
     [(''b'', [[''b'']]), (''c'', [[''c'']])] \<and>
   c2s (snd (command_to_str (default_config\<lparr>cache_sz := 1\<rparr>) [[''c'']]
     (command_to_str_all (default_config\<lparr>cache_sz := 1\<rparr>) [[[''a'']], [[''b'']]]
        (initial_state\<lparr>c2s := [([[''z'']], ''z'')]\<rparr>)))) =
     [([[''b'']], ''b''), ([[''c'']], ''c'')] \<and>
   \<not> length [(''b'', [[''b'']]), (''c'', [[''c'']])] \<le> 1"
  by (simp add: str_to_command_all_def command_to_str_all_def str_to_command_def
      command_to_str_def initial_state_def str_to_command_result_def command_to_str_result_def
      strip_def isspace_def Let_def)

subsection \<open>Note store\<close>




subsection \<open>Access control in the dispatcher\<close>

lemma has_permission_everyone:
  "\<forall>r\<in>set roles. role_name r = ''@everyone'' \<Longrightarrow> has_permission roles bot_roles = Inr False"
  by (induction bot_roles) (auto split: list.splits)

text \<open>
  C6, as amended. For every message of an author that is not a bot, that starts with
  the command prefix and whose text after the prefix does not start with the note
  prefix, when the roles of the bot can be read and every role of the author is
  \<^verbatim>\<open>@everyone\<close>, \<^verbatim>\<open>on_message\<close> sends the permission-denied response and calls no
  handler. The counterexample to the claim as stated has three messages of such an
  author: the command prefix followed by the note prefix calls \<^verbatim>\<open>cmd_list\<close>; a command
  where the roles of the bot cannot be read returns without a response; a command of a
  bot author returns without a response. In the closed examples the two parameters of
  \<^const>\<open>pformat_cached\<close>, which these paths do not apply, are instantiated by
  \<^const>\<open>command_to_str_result\<close>.
\<close>

theorem permission_denied_without_role:
  assumes "\<not> author_bot message"
    and "startswith (content message) (prefix cfg)"
    and "\<not> startswith (removeprefix (content message) (prefix cfg)) (note_prefix cfg)"
    and "\<forall>r\<in>set (author_roles message). role_name r = ''@everyone''"
  shows "on_message key pformat cfg (Some bot_roles) message \<sigma> =
           Inr (Send Permission_Denied,
                snd (str_to_command cfg (removeprefix (content message) (prefix cfg)) \<sigma>))"
  using assms(1-3) has_permission_everyone[OF assms(4), of bot_roles]
  by (simp add: on_message_def Let_def split_beta)

theorem permission_denied_without_role_witness:
  "on_message command_to_str_result command_to_str_result default_config
     (Some [\<lparr>role_id = 1, role_name = ''@everyone''\<rparr>, \<lparr>role_id = 2, role_name = ''bots''\<rparr>])
     \<lparr>author_bot = False, author_id = 7,
      author_roles = [\<lparr>role_id = 1, role_name = ''@everyone''\<rparr>],
      content = CHR 0x27 # ''say hi''\<rparr> initial_state =
   Inr (Send Permission_Denied, initial_state\<lparr>s2c := [(''say hi'', [[''say'', ''hi'']])]\<rparr>)"
  using permission_denied_without_role[where message =
      "\<lparr>author_bot = False, author_id = 7,
        author_roles = [\<lparr>role_id = 1, role_name = ''@everyone''\<rparr>],
        content = CHR 0x27 # ''say hi''\<rparr>" and cfg = default_config and bot_roles =
      "[\<lparr>role_id = 1, role_name = ''@everyone''\<rparr>, \<lparr>role_id = 2, role_name = ''bots''\<rparr>]"
      and key = command_to_str_result and pformat = command_to_str_result and \<sigma> = initial_state]
  by (simp add: startswith_def removeprefix_def default_config_def str_to_command_def
      str_to_command_result_def initial_state_def strip_def isspace_def Let_def)

theorem permission_denied_without_role_counterexample:
  "on_message command_to_str_result command_to_str_result default_config
     (Some [\<lparr>role_id = 1, role_name = ''@everyone''\<rparr>, \<lparr>role_id = 2, role_name = ''bots''\<rparr>])
     \<lparr>author_bot = False, author_id = 7,
      author_roles = [\<lparr>role_id = 1, role_name = ''@everyone''\<rparr>],
      content = [CHR 0x27, CHR 0x22]\<rparr> initial_state =
   Inr (Call ''list'' [[[CHR 0x22]]], initial_state\<lparr>s2c := [([CHR 0x22], [[[CHR 0x22]]])]\<rparr>) \<and>
   on_message command_to_str_result command_to_str_result default_config None
     \<lparr>author_bot = False, author_id = 7, author_roles = [],
      content = CHR 0x27 # ''say hi''\<rparr> initial_state =
   Inr (Return, initial_state\<lparr>s2c := [(''say hi'', [[''say'', ''hi'']])]\<rparr>) \<and>
   on_message command_to_str_result command_to_str_result default_config
     (Some [\<lparr>role_id = 1, role_name = ''@everyone''\<rparr>, \<lparr>role_id = 2, role_name = ''bots''\<rparr>])
     \<lparr>author_bot = True, author_id = 7,
      author_roles = [\<lparr>role_id = 1, role_name = ''@everyone''\<rparr>],
      content = CHR 0x27 # ''say hi''\<rparr> initial_state =
   Inr (Return, initial_state)"
  by (simp add: on_message_def startswith_def removeprefix_def default_config_def
      str_to_command_def str_to_command_result_def initial_state_def strip_def isspace_def Let_def)

subsection \<open>Message chunker\<close>

lemma concat_slices: "concat (map (\<lambda>k. take m (drop (m * k) xs)) [0..<n]) = take (m * n) xs"
proof (induction n)
  case 0
  then show ?case by simp
next
  case (Suc n)
  have "take (m * Suc n) xs = take (m * n + m) xs" by (simp add: add.commute)
  also have "\<dots> = take (m * n) xs @ take m (drop (m * n) xs)" by (rule take_add)
  finally show ?case using Suc by simp
qed

lemma concat_chunks: "concat (chunks message) = message"
proof -
  have "length message \<le> 2000 * ((length message + 1999) div 2000)" by arith
  then show ?thesis by (simp add: chunks_def concat_slices)
qed

lemma length_chunk: "chunk \<in> set (chunks message) \<Longrightarrow> length chunk \<le> 2000"
  by (auto simp: chunks_def)

lemma send_message_loop_eq:
  "send_message_loop cfg chunk_idx cs =
     map (\<lambda>chunk. chunk @ [NL]) (take (nat (chunk_limit cfg + 1 - int chunk_idx)) cs) @
     (if nat (chunk_limit cfg + 1 - int chunk_idx) < length cs then [chunk_warning cfg] else [])"
proof (induction cs arbitrary: chunk_idx)
  case Nil
  then show ?case by simp
next
  case (Cons chunk cs)
  show ?case
  proof (cases "int chunk_idx > chunk_limit cfg")
    case True
    then show ?thesis by simp
  next
    case False
    then obtain k where k: "nat (chunk_limit cfg + 1 - int chunk_idx) = Suc k"
      and k': "nat (chunk_limit cfg + 1 - int (Suc chunk_idx)) = k"
      by (cases "nat (chunk_limit cfg + 1 - int chunk_idx)") auto
    from False show ?thesis using Cons[of "Suc chunk_idx"] unfolding k' 
      by (simp add: k)
  qed
qed

lemma send_message_eq:
  "send_message cfg message =
     map (\<lambda>chunk. chunk @ [NL]) (take (nat (chunk_limit cfg + 1)) (chunks message)) @
     (if nat (chunk_limit cfg + 1) < length (chunks message) then [chunk_warning cfg] else [])"
  using send_message_loop_eq[of cfg 0 "chunks message"] by (simp add: send_message_def)

text \<open>
  C5. With \<^verbatim>\<open>chunk-limit = 2\<close> and a text of four chunks the claim expects three
  outputs, two chunks and the warning. \<^verbatim>\<open>_send_message\<close> compares the index of the
  chunk, which starts at 0, with the limit by \<^verbatim>\<open>>\<close>: on 8000 characters it sends the
  chunks of index 0, 1 and 2 and then the warning, four outputs.
\<close>

theorem send_message_limit_2_chunks_4:
  "send_message (default_config\<lparr>chunk_limit := 2\<rparr>) (replicate 8000 (CHR ''a'')) =
     [replicate 2000 (CHR ''a'') @ [NL], replicate 2000 (CHR ''a'') @ [NL],
      replicate 2000 (CHR ''a'') @ [NL],
      ''***Message chunk count exceeded (2), message too long!***'']"
proof -
  have digit: "char_of (50 :: nat) = CHR ''2''" by code_simp
  show ?thesis
    by (simp add: send_message_def chunks_def upt_rec chunk_warning_def str_int_def digit)
qed

text \<open>
  C9. The claim bounds every payload by 2000 characters. \<^verbatim>\<open>_send_message\<close> sends
  each slice of 2000 characters followed by a newline: on a text of 2000 characters the
  one payload has 2001 characters.
\<close>

theorem send_message_payload_2001:
  "send_message default_config (replicate 2000 (CHR ''a'')) = [replicate 2000 (CHR ''a'') @ [NL]] \<and>
   length (replicate 2000 (CHR ''a'') @ [NL]) = 2001"
  by (simp add: send_message_def chunks_def upt_rec default_config_def)

end
